theory Spec2Isabelle
  imports Main
begin

section \<open>The service\<close>

text \<open>
  A small Express server over MongoDB that records application downloads and serves
  download counters. Its source comes in two variants with the same route handlers: a
  long-running server, whose function \<^verbatim>\<open>run\<close> awaits \<^verbatim>\<open>initializeCounter\<close> and then
  registers the routes, and a serverless one, whose handlers first await
  \<^verbatim>\<open>connectToDatabase\<close>, which performs the same initialisation once per instance. The
  development follows the long-running server: a handler is what stands between its
  \<^verbatim>\<open>try\<close> and its \<^verbatim>\<open>catch\<close>, and it runs on collections that have been initialised
  unless a property says otherwise.
\<close>

section \<open>The two collections\<close>

text \<open>
  The service keeps all of its state in two MongoDB collections of the database
  \<^verbatim>\<open>hub-app-db\<close>: \<^verbatim>\<open>downloadInfo\<close> (one document per tracked download) and
  \<^verbatim>\<open>totalDownload\<close> (one document \<^verbatim>\<open>{ _id, count }\<close> per counter; the document with
  \<^verbatim>\<open>_id: "counter"\<close> is the global counter). A collection is the list of its documents
  in insertion order. Every document the service writes into \<^verbatim>\<open>totalDownload\<close> has a
  numeric \<^verbatim>\<open>count\<close>, which only ever starts at a document count or at 1 and grows by 1;
  it is a natural number here.
\<close>

record download =
  rec_appId :: "string option"
  rec_userAgent :: string
  rec_ip :: string
  rec_createdAt :: nat

record counter =
  doc_id :: string
  doc_count :: nat

record db =
  downloadInfo :: "download list"
  totalDownload :: "counter list"

section \<open>The driver calls the service makes\<close>

text \<open>
  Each awaited call of the MongoDB driver is one storage operation. The operations are
  exactly the calls that occur in the source:
  \<^item> \<^verbatim>\<open>downloadInfoCollection.insertOne(doc)\<close>,
  \<^item> \<^verbatim>\<open>downloadInfoCollection.countDocuments()\<close>,
  \<^item> \<^verbatim>\<open>totalDownloadCollection.findOne({ _id })\<close>,
  \<^item> \<^verbatim>\<open>totalDownloadCollection.find({ _id: { $ne } }).toArray()\<close>,
  \<^item> \<^verbatim>\<open>totalDownloadCollection.insertOne({ _id, count })\<close>,
  \<^item> \<^verbatim>\<open>totalDownloadCollection.findOneAndUpdate({ _id }, { $inc: { count: 1 } }, opts)\<close>
    with the two options the source uses, \<^verbatim>\<open>upsert\<close> and \<^verbatim>\<open>returnDocument: "after"\<close>.
\<close>

datatype op =
    InsertDownload download
  | CountDocuments
  | FindOne string
  | FindNe string
  | InsertCounter counter
  | FindOneAndUpdate string bool bool

datatype reply =
    Inserted
  | Counted nat
  | Found "counter option"
  | FoundAll "counter list"
  | Modified "counter option"

datatype error = StorageUnavailable | DuplicateKey | TypeError

definition findOne :: "string \<Rightarrow> counter list \<Rightarrow> counter option" where
  "findOne i cs = find (\<lambda>d. doc_id d = i) cs"

text \<open>\<^verbatim>\<open>$inc: { count: 1 }\<close> on the one document that matches the filter.\<close>

fun inc_first :: "string \<Rightarrow> counter list \<Rightarrow> counter list" where
  "inc_first i [] = []"
| "inc_first i (d # ds) =
     (if doc_id d = i then d\<lparr>doc_count := doc_count d + 1\<rparr> # ds else d # inc_first i ds)"

text \<open>
  \<^verbatim>\<open>findOneAndUpdate\<close> answers with a result object whose \<^verbatim>\<open>value\<close> is the matched
  document (before the update unless \<^verbatim>\<open>returnDocument: "after"\<close> is given) or
  \<^verbatim>\<open>null\<close> when nothing matched and nothing was returned for an upsert. With
  \<^verbatim>\<open>upsert: true\<close> and no match, the document \<^verbatim>\<open>{ _id, count: 1 }\<close> is inserted.
\<close>

definition findOneAndUpdate :: "string \<Rightarrow> bool \<Rightarrow> bool \<Rightarrow> counter list \<Rightarrow> counter option \<times> counter list" where
  "findOneAndUpdate i upsert after cs =
     (case findOne i cs of
        Some d \<Rightarrow> (Some (if after then d\<lparr>doc_count := doc_count d + 1\<rparr> else d), inc_first i cs)
      | None \<Rightarrow>
          if upsert
          then (if after then Some \<lparr>doc_id = i, doc_count = 1\<rparr> else None,
                cs @ [\<lparr>doc_id = i, doc_count = 1\<rparr>])
          else (None, cs))"

text \<open>
  What an operation does when the storage serves it. \<^verbatim>\<open>_id\<close> is unique in a collection,
  so inserting a counter whose \<^verbatim>\<open>_id\<close> is taken is refused with a duplicate-key error.
\<close>

fun exec :: "op \<Rightarrow> db \<Rightarrow> (error + reply) \<times> db" where
  "exec (InsertDownload r) s = (Inr Inserted, s\<lparr>downloadInfo := downloadInfo s @ [r]\<rparr>)"
| "exec CountDocuments s = (Inr (Counted (length (downloadInfo s))), s)"
| "exec (FindOne i) s = (Inr (Found (findOne i (totalDownload s))), s)"
| "exec (FindNe i) s = (Inr (FoundAll (filter (\<lambda>d. doc_id d \<noteq> i) (totalDownload s))), s)"
| "exec (InsertCounter d) s =
     (case findOne (doc_id d) (totalDownload s) of
        Some _ \<Rightarrow> (Inl DuplicateKey, s)
      | None \<Rightarrow> (Inr Inserted, s\<lparr>totalDownload := totalDownload s @ [d]\<rparr>))"
| "exec (FindOneAndUpdate i upsert after) s =
     (case findOneAndUpdate i upsert after (totalDownload s) of
        (v, cs) \<Rightarrow> (Inr (Modified v), s\<lparr>totalDownload := cs\<rparr>))"

section \<open>Asynchronous code as a sequence of awaited calls\<close>

text \<open>
  An \<^verbatim>\<open>async\<close> function is a program that either has finished with a value or awaits
  one storage operation and continues with its outcome: the reply, or the error the
  driver throws.
\<close>

datatype 'a prog =
    Return 'a
  | Call op "error + reply \<Rightarrow> 'a prog"

text \<open>
  One request served alone. The list says, for each successive storage call, whether the
  storage fails it (a call past the end of the list is served). A failed call throws
  \<open>StorageUnavailable\<close> and leaves the collections as they were. The run returns the
  value, the calls made with their outcomes, and the collections afterwards.
\<close>

definition fails :: "bool list \<Rightarrow> bool" where
  "fails fs = (case fs of [] \<Rightarrow> False | f # _ \<Rightarrow> f)"

primrec run :: "'a prog \<Rightarrow> bool list \<Rightarrow> db \<Rightarrow> 'a \<times> (op \<times> (error + reply)) list \<times> db" where
  "run (Return a) = (\<lambda>fs s. (a, [], s))"
| "run (Call c k) = (\<lambda>fs s.
     if fails fs
     then (case run (k (Inl StorageUnavailable)) (tl fs) s of
             (a, tr, s') \<Rightarrow> (a, (c, Inl StorageUnavailable) # tr, s'))
     else (case exec c s of
             (r, s1) \<Rightarrow> (case run (k r) (tl fs) s1 of
                           (a, tr, s') \<Rightarrow> (a, (c, r) # tr, s'))))"

section \<open>Requests and responses\<close>

record track_request =
  body_userAgent :: "string option"
  req_ip :: "string option"
  remoteAddress :: string
  now :: nat

datatype body =
    DownloadCounts "(string \<times> nat) list"
  | TotalDownloadCount nat
  | Tracked bool nat string
  | ErrorBody string
  | Message string

record response =
  status :: nat
  body :: body

definition json :: "body \<Rightarrow> response" where
  "json b = \<lparr>status = 200, body = b\<rparr>"

definition status_json :: "nat \<Rightarrow> body \<Rightarrow> response" where
  "status_json c b = \<lparr>status = c, body = b\<rparr>"

text \<open>JavaScript's \<^verbatim>\<open>a || b\<close> on an optional string: an absent or empty one is falsy.\<close>

definition or_else :: "string option \<Rightarrow> string \<Rightarrow> string" where
  "or_else a b = (case a of None \<Rightarrow> b | Some x \<Rightarrow> if x = [] then b else x)"

text \<open>\<^verbatim>\<open>n || 0\<close> on a number.\<close>

definition or_zero :: "nat \<Rightarrow> nat" where
  "or_zero n = (if n = 0 then 0 else n)"

text \<open>
  \<^verbatim>\<open>downloadCounts[key] = value\<close> on a plain object: an own property is created or
  overwritten in place, except for the key \<^verbatim>\<open>__proto__\<close>, whose assignment goes to the
  prototype setter and, for a number, stores nothing. The object is the list of its own
  properties in the order of their creation (JavaScript lists integer-like keys first;
  no property below depends on the order).
\<close>

fun assign :: "(string \<times> nat) list \<Rightarrow> string \<Rightarrow> nat \<Rightarrow> (string \<times> nat) list" where
  "assign [] k v = (if k = ''__proto__'' then [] else [(k, v)])"
| "assign ((k', v') # m) k v =
     (if k = ''__proto__'' then (k', v') # m
      else if k' = k then (k', v) # m
      else (k', v') # assign m k v)"

definition record_of :: "string option \<Rightarrow> track_request \<Rightarrow> download" where
  "record_of a rq =
     \<lparr>rec_appId = a,
      rec_userAgent = or_else (body_userAgent rq) ''Unknown'',
      rec_ip = or_else (req_ip rq) (remoteAddress rq),
      rec_createdAt = now rq\<rparr>"

section \<open>Startup: \<^verbatim>\<open>initializeCounter\<close>\<close>

text \<open>
  \<^verbatim>\<open>
  const counterDoc = await totalDownloadCollection.findOne({ _id: "counter" });
  if (!counterDoc) {
    const existingCount = await downloadInfoCollection.countDocuments();
    await totalDownloadCollection.insertOne({ _id: "counter", count: existingCount });
  }
  \<close>
  The function has no \<^verbatim>\<open>try\<close> of its own: an error of any of the three calls leaves it
  as the error (\<open>Inl\<close>). The same three calls, in the same order, are the initialisation
  inside \<^verbatim>\<open>connectToDatabase\<close> of the serverless variant.
\<close>

definition initializeCounter :: "(error + unit) prog" where
  "initializeCounter =
     Call (FindOne ''counter'') (\<lambda>r1.
       case r1 of
         Inl e \<Rightarrow> Return (Inl e)
       | Inr (Found (Some counterDoc)) \<Rightarrow> Return (Inr ())
       | Inr (Found None) \<Rightarrow>
           Call CountDocuments (\<lambda>r2.
             case r2 of
               Inl e \<Rightarrow> Return (Inl e)
             | Inr (Counted existingCount) \<Rightarrow>
                 Call (InsertCounter \<lparr>doc_id = ''counter'', doc_count = existingCount\<rparr>) (\<lambda>r3.
                   case r3 of
                     Inl e \<Rightarrow> Return (Inl e)
                   | Inr _ \<Rightarrow> Return (Inr ()))
             | Inr _ \<Rightarrow> Return (Inl TypeError))
       | Inr _ \<Rightarrow> Return (Inl TypeError))"

section \<open>The route handlers\<close>

text \<open>
  Every handler is one \<^verbatim>\<open>try\<close> block whose \<^verbatim>\<open>catch\<close> answers 500 with a fixed message;
  whatever the calls before the throw have written stays written.
\<close>

definition get_totaldownloads :: "response prog" where
  "get_totaldownloads =
     Call (FindNe ''counter'') (\<lambda>r.
       case r of
         Inr (FoundAll appCounters) \<Rightarrow>
           Return (json (DownloadCounts
             (fold (\<lambda>app downloadCounts. assign downloadCounts (doc_id app) (or_zero (doc_count app)))
                appCounters [])))
       | _ \<Rightarrow> Return (status_json 500 (ErrorBody ''Failed to fetch download counts'')))"

definition get_totaldownloads_app :: "string \<Rightarrow> response prog" where
  "get_totaldownloads_app appId =
     Call (FindOne appId) (\<lambda>r.
       case r of
         Inr (Found appCounter) \<Rightarrow>
           Return (json (TotalDownloadCount
             (case appCounter of Some d \<Rightarrow> doc_count d | None \<Rightarrow> 0)))
       | _ \<Rightarrow> Return (status_json 500 (ErrorBody ''Failed to fetch download count'')))"

definition track_failed :: response where
  "track_failed = status_json 500 (ErrorBody ''Failed to track download'')"

text \<open>
  \<^verbatim>\<open>res.json({ success: true, totalDownloadCount: result.value.count, message })\<close>:
  reading \<^verbatim>\<open>count\<close> of a \<^verbatim>\<open>null\<close> value throws a TypeError inside the \<^verbatim>\<open>try\<close>.
\<close>

definition respond_tracked :: "reply \<Rightarrow> response prog" where
  "respond_tracked result =
     (case result of
        Modified (Some d) \<Rightarrow>
          Return (json (Tracked True (doc_count d) ''Download tracked successfully''))
      | _ \<Rightarrow> Return track_failed)"

definition post_totaldownloads_app :: "string \<Rightarrow> track_request \<Rightarrow> response prog" where
  "post_totaldownloads_app appId rq =
     Call (InsertDownload (record_of (Some appId) rq)) (\<lambda>r1.
       case r1 of
         Inl e \<Rightarrow> Return track_failed
       | Inr _ \<Rightarrow>
           Call (FindOneAndUpdate appId True True) (\<lambda>r2.
             case r2 of
               Inl e \<Rightarrow> Return track_failed
             | Inr result \<Rightarrow>
                 Call (FindOneAndUpdate ''counter'' True False) (\<lambda>r3.
                   case r3 of
                     Inl e \<Rightarrow> Return track_failed
                   | Inr _ \<Rightarrow> respond_tracked result)))"

definition post_totaldownloads :: "track_request \<Rightarrow> response prog" where
  "post_totaldownloads rq =
     Call (InsertDownload (record_of None rq)) (\<lambda>r1.
       case r1 of
         Inl e \<Rightarrow> Return track_failed
       | Inr _ \<Rightarrow>
           Call (FindOneAndUpdate ''counter'' False True) (\<lambda>r2.
             case r2 of Inl e \<Rightarrow> Return track_failed | Inr result \<Rightarrow> respond_tracked result))"

definition get_root :: "response prog" where
  "get_root = Return (json (Message ''Hello hub softwares server''))"

datatype request =
    GET_totaldownloads
  | GET_totaldownloads_app string
  | POST_totaldownloads_app string track_request
  | POST_totaldownloads track_request
  | GET_root

fun handler :: "request \<Rightarrow> response prog" where
  "handler GET_totaldownloads = get_totaldownloads"
| "handler (GET_totaldownloads_app appId) = get_totaldownloads_app appId"
| "handler (POST_totaldownloads_app appId rq) = post_totaldownloads_app appId rq"
| "handler (POST_totaldownloads rq) = post_totaldownloads rq"
| "handler GET_root = get_root"

definition serve :: "request \<Rightarrow> bool list \<Rightarrow> db \<Rightarrow> response \<times> (op \<times> (error + reply)) list \<times> db" where
  "serve rq fs s = run (handler rq) fs s"

section \<open>Requests served concurrently\<close>

text \<open>
  Requests do not share memory: each is its own program, and the only thing they share
  is the storage. Between two awaited calls of one request, calls of other requests may
  be served. A schedule names, step by step, the request whose pending call the storage
  takes next, and whether it fails that call. Every driver call is one step: MongoDB
  applies an operation on a single document atomically.
\<close>

fun returned :: "'a prog \<Rightarrow> 'a option" where
  "returned (Return a) = Some a"
| "returned (Call c k) = None"

fun step :: "bool \<Rightarrow> 'a prog \<Rightarrow> db \<Rightarrow> 'a prog \<times> (op \<times> (error + reply)) list \<times> db" where
  "step f (Return a) s = (Return a, [], s)"
| "step f (Call c k) s =
     (if f then (k (Inl StorageUnavailable), [(c, Inl StorageUnavailable)], s)
      else (case exec c s of (r, s1) \<Rightarrow> (k r, [(c, r)], s1)))"

fun interleave ::
  "(nat \<times> bool) list \<Rightarrow> 'a prog list \<Rightarrow> db \<Rightarrow>
     'a prog list \<times> (nat \<times> op \<times> (error + reply)) list \<times> db" where
  "interleave [] ps s = (ps, [], s)"
| "interleave ((n, f) # sch) ps s =
     (if n < length ps
      then (case step f (ps ! n) s of
              (p', ev, s1) \<Rightarrow>
                (case interleave sch (ps[n := p']) s1 of
                   (ps', tr, s') \<Rightarrow> (ps', map (Pair n) ev @ tr, s')))
      else interleave sch ps s)"

section \<open>Vocabulary of the properties\<close>

text \<open>The value a counter stands for: its \<^verbatim>\<open>count\<close>, or zero while it does not exist.\<close>

definition count_of :: "db \<Rightarrow> string \<Rightarrow> nat" where
  "count_of s i = (case findOne i (totalDownload s) of Some d \<Rightarrow> doc_count d | None \<Rightarrow> 0)"

text \<open>The storage serves the next \<open>n\<close> calls.\<close>

definition served :: "nat \<Rightarrow> bool list \<Rightarrow> bool" where
  "served n fs = (True \<notin> set (take n fs))"

text \<open>The collections after the calls of a trace that were served, applied in order.\<close>

definition replay :: "(op \<times> (error + reply)) list \<Rightarrow> db \<Rightarrow> db" where
  "replay tr s = fold (\<lambda>(c, r) s. case r of Inl _ \<Rightarrow> s | Inr _ \<Rightarrow> snd (exec c s)) tr s"

text \<open>A history: requests served one after the other, each with its own storage faults.\<close>

fun serve_all :: "(request \<times> bool list) list \<Rightarrow> db \<Rightarrow> db" where
  "serve_all [] s = s"
| "serve_all ((rq, fs) # rs) s = serve_all rs (snd (snd (serve rq fs s)))"

text \<open>A request tracks a download of application \<open>i\<close>.\<close>

fun tracks :: "string \<Rightarrow> request \<Rightarrow> bool" where
  "tracks i (POST_totaldownloads_app appId rq) = (appId = i)"
| "tracks i _ = False"

text \<open>
  The increment calls a request makes, by the counter they are on: a
  \<^verbatim>\<open>POST /totaldownloads/:appId\<close> calls \<^verbatim>\<open>findOneAndUpdate\<close> once for its \<^verbatim>\<open>appId\<close> and
  once for \<^verbatim>\<open>"counter"\<close>, a \<^verbatim>\<open>POST /totaldownloads\<close> once for \<^verbatim>\<open>"counter"\<close>, a read
  never. \<open>increments i rqs\<close> is the number of increment calls on \<open>i\<close> that the
  requests \<open>rqs\<close> make.
\<close>

fun increment_calls :: "request \<Rightarrow> string list" where
  "increment_calls (POST_totaldownloads_app appId rq) = [appId, ''counter'']"
| "increment_calls (POST_totaldownloads rq) = [''counter'']"
| "increment_calls _ = []"

definition increments :: "string \<Rightarrow> request list \<Rightarrow> nat" where
  "increments i rqs = length (filter (\<lambda>a. a = i) (concat (map increment_calls rqs)))"

text \<open>A tracking request, and one that names no application.\<close>

fun tracking :: "request \<Rightarrow> bool" where
  "tracking (POST_totaldownloads_app appId rq) = True"
| "tracking (POST_totaldownloads rq) = True"
| "tracking _ = False"

fun unscoped :: "request \<Rightarrow> bool" where
  "unscoped (POST_totaldownloads rq) = True"
| "unscoped _ = False"

text \<open>An event of an interleaved run that created a counter document by \<^verbatim>\<open>insertOne\<close>.\<close>

fun is_creation :: "nat \<times> op \<times> (error + reply) \<Rightarrow> bool" where
  "is_creation (n, InsertCounter d, Inr Inserted) = True"
| "is_creation _ = False"

section \<open>Where a running request stands\<close>

text \<open>
  The rest of \<^verbatim>\<open>POST /totaldownloads/:appId\<close> after its first and after its second
  awaited call, the rest of \<^verbatim>\<open>POST /totaldownloads\<close> after its first, and the rest of
  \<^verbatim>\<open>initializeCounter\<close> after its first and second.
\<close>

definition post_app_after_increment :: "reply \<Rightarrow> response prog" where
  "post_app_after_increment result =
     Call (FindOneAndUpdate ''counter'' True False) (\<lambda>r3.
       case r3 of Inl e \<Rightarrow> Return track_failed | Inr _ \<Rightarrow> respond_tracked result)"

definition post_app_after_insert :: "string \<Rightarrow> response prog" where
  "post_app_after_insert appId =
     Call (FindOneAndUpdate appId True True) (\<lambda>r2.
       case r2 of Inl e \<Rightarrow> Return track_failed | Inr result \<Rightarrow> post_app_after_increment result)"

definition post_after_insert :: "response prog" where
  "post_after_insert =
     Call (FindOneAndUpdate ''counter'' False True) (\<lambda>r2.
       case r2 of Inl e \<Rightarrow> Return track_failed | Inr result \<Rightarrow> respond_tracked result)"

definition init_after_count :: "nat \<Rightarrow> (error + unit) prog" where
  "init_after_count existingCount =
     Call (InsertCounter \<lparr>doc_id = ''counter'', doc_count = existingCount\<rparr>) (\<lambda>r3.
       case r3 of Inl e \<Rightarrow> Return (Inl e) | Inr _ \<Rightarrow> Return (Inr ()))"

definition init_after_find :: "(error + unit) prog" where
  "init_after_find =
     Call CountDocuments (\<lambda>r2.
       case r2 of
         Inl e \<Rightarrow> Return (Inl e)
       | Inr (Counted existingCount) \<Rightarrow> init_after_count existingCount
       | Inr _ \<Rightarrow> Return (Inl TypeError))"

text \<open>One increment call on counter \<open>a\<close>, counted for counter \<open>i\<close>: 1 when they are the same.\<close>

definition hit :: "string \<Rightarrow> string \<Rightarrow> nat" where
  "hit i a = (if a = i then 1 else 0)"

text \<open>The increments of counter \<open>i\<close> a running request has still to make.\<close>

inductive owes :: "string \<Rightarrow> response prog \<Rightarrow> nat \<Rightarrow> bool" for i where
  owes_app: "owes i (post_totaldownloads_app a rq) (hit i a + hit i ''counter'')"
| owes_app_inserted: "owes i (post_app_after_insert a) (hit i a + hit i ''counter'')"
| owes_app_incremented: "owes i (post_app_after_increment r) (hit i ''counter'')"
| owes_global: "owes i (post_totaldownloads rq) (hit i ''counter'')"
| owes_global_inserted: "owes i post_after_insert (hit i ''counter'')"
| owes_read_all: "owes i get_totaldownloads 0"
| owes_read_one: "owes i (get_totaldownloads_app a) 0"
| owes_over: "owes i (Return res) 0"

text \<open>
  A running request whose increment of the global counter is still to come and will not
  create the counter: the two stages of \<^verbatim>\<open>POST /totaldownloads\<close> before its
  \<^verbatim>\<open>findOneAndUpdate\<close>, which passes no \<^verbatim>\<open>upsert\<close>.
\<close>

definition wants_counter :: "response prog \<Rightarrow> bool" where
  "wants_counter p \<longleftrightarrow> (\<exists>rq. p = post_totaldownloads rq) \<or> p = post_after_insert"

text \<open>The counter collection of \<open>s\<close> with the global counter seeded from its log.\<close>

definition seeded :: "db \<Rightarrow> counter list" where
  "seeded s = totalDownload s @ [\<lparr>doc_id = ''counter'', doc_count = length (downloadInfo s)\<rparr>]"

text \<open>
  Where one initialisation attempt stands while attempts race from the collections
  \<open>s0\<close>: it has not read yet, it has read that the counter is absent, it has counted
  the log, or it is over, which it can only be once the counter has been created.
\<close>

definition attempt_ok :: "db \<Rightarrow> db \<Rightarrow> (error + unit) prog \<Rightarrow> bool" where
  "attempt_ok s0 s p \<longleftrightarrow>
     p = initializeCounter \<or> p = init_after_find \<or>
     p = init_after_count (length (downloadInfo s0)) \<or>
     ((p = Return (Inr ()) \<or> p = Return (Inl DuplicateKey)) \<and> totalDownload s = seeded s0)"

definition race_inv :: "db \<Rightarrow> (error + unit) prog list \<Rightarrow> db \<Rightarrow> bool" where
  "race_inv s0 ps s \<longleftrightarrow>
     downloadInfo s = downloadInfo s0 \<and>
     (totalDownload s = totalDownload s0 \<or> totalDownload s = seeded s0) \<and>
     list_all (attempt_ok s0 s) ps"

section \<open>Sample data\<close>

definition sample_request :: track_request where
  "sample_request =
     \<lparr>body_userAgent = None, req_ip = Some ''10.0.0.1'', remoteAddress = ''10.0.0.1'', now = 7\<rparr>"

definition sample_db :: db where
  "sample_db =
     \<lparr>downloadInfo = [],
      totalDownload = [\<lparr>doc_id = ''counter'', doc_count = 5\<rparr>,
                       \<lparr>doc_id = ''hub-mobile'', doc_count = 3\<rparr>]\<rparr>"

definition legacy_db :: db where
  "legacy_db =
     \<lparr>downloadInfo = [record_of None sample_request, record_of None sample_request],
      totalDownload = []\<rparr>"

definition empty_db :: db where
  "empty_db = \<lparr>downloadInfo = [], totalDownload = []\<rparr>"





definition init_schedule :: "(nat \<times> bool) list" where
  "init_schedule = [(0, False), (1, False), (1, False), (0, False), (0, False), (1, False)]"

section \<open>Facts about the storage operations\<close>

lemmas handler_defs =
  serve_def get_totaldownloads_def get_totaldownloads_app_def post_totaldownloads_app_def
  post_totaldownloads_def respond_tracked_def get_root_def track_failed_def json_def
  status_json_def

lemma served_0: "served 0 fs"
  by (simp add: served_def)

lemma served_Suc: "served (Suc n) fs = (\<not> fails fs \<and> served n (tl fs))"
  by (cases fs) (auto simp: served_def fails_def)

lemma findOne_Nil [simp]: "findOne i [] = None"
  by (simp add: findOne_def)

lemma findOne_Cons [simp]: "findOne i (d # ds) = (if doc_id d = i then Some d else findOne i ds)"
  by (simp add: findOne_def)

lemma findOne_inc_first_other: "j \<noteq> i \<Longrightarrow> findOne j (inc_first i cs) = findOne j cs"
  by (induction cs) auto

lemma findOne_inc_first_same:
  "findOne i (inc_first i cs) = map_option (\<lambda>d. d\<lparr>doc_count := doc_count d + 1\<rparr>) (findOne i cs)"
  by (induction cs) auto

lemma findOne_append:
  "findOne i (cs @ ds) = (case findOne i cs of Some d \<Rightarrow> Some d | None \<Rightarrow> findOne i ds)"
  by (induction cs) auto

lemma findOne_Some_id: "findOne i cs = Some d \<Longrightarrow> doc_id d = i"
  by (induction cs) (auto split: if_splits)

lemma findOne_None_iff: "findOne i cs = None \<longleftrightarrow> i \<notin> doc_id ` set cs"
  by (induction cs) auto

lemma filter_inc_first:
  "filter (\<lambda>d. doc_id d \<noteq> i) (inc_first i cs) = filter (\<lambda>d. doc_id d \<noteq> i) cs"
  by (induction cs) auto

lemma map_id_inc_first: "map doc_id (inc_first i cs) = map doc_id cs"
  by (induction cs) auto

lemma count_of_downloadInfo [simp]: "count_of (s\<lparr>downloadInfo := x\<rparr>) i = count_of s i"
  by (simp add: count_of_def)

lemma count_of_upsert:
  "count_of (s\<lparr>totalDownload := snd (findOneAndUpdate i True a (totalDownload s))\<rparr>) j =
     (if j = i then count_of s j + 1 else count_of s j)"
  by (auto simp: count_of_def findOneAndUpdate_def findOne_append findOne_inc_first_other
      findOne_inc_first_same split: option.splits)

lemma count_of_upsert_on:
  "count_of (s\<lparr>totalDownload := snd (findOneAndUpdate i True a cs)\<rparr>) j =
     (if j = i then count_of (s\<lparr>totalDownload := cs\<rparr>) j + 1
      else count_of (s\<lparr>totalDownload := cs\<rparr>) j)"
  using count_of_upsert[where s = "s\<lparr>totalDownload := cs\<rparr>" and i = i and a = a and j = j]
  by simp

lemma exec_upsert_count:
  "exec (FindOneAndUpdate a True b) s = (r, s') \<Longrightarrow> count_of s' i = count_of s i + hit i a"
  using count_of_upsert[where s = s and i = a and a = b and j = i]
  by (auto simp: hit_def split: prod.splits)

section \<open>One request alone is an interleaving of one program\<close>

lemma interleave_finished:
  "list_all (\<lambda>p. returned p \<noteq> None) ps \<Longrightarrow> interleave sch ps s = (ps, [], s)"
proof (induction sch)
  case Nil
  then show ?case by simp
next
  case (Cons a sch)
  obtain n f where a: "a = (n, f)" by (cases a)
  show ?case
  proof (cases "n < length ps")
    case False
    with Cons a show ?thesis by simp
  next
    case True
    with Cons.prems obtain x where x: "ps ! n = Return x"
      by (cases "ps ! n") (auto simp: list_all_length)
    then have "ps[n := Return x] = ps" by (metis list_update_id)
    with Cons a True x show ?thesis by simp
  qed
qed

lemma run_is_interleave:
  "run p fs s = (a, tr, s') \<Longrightarrow> length tr \<le> length fs \<Longrightarrow>
   interleave (map (Pair 0) fs) [p] s = ([Return a], map (Pair 0) tr, s')"
proof (induction p arbitrary: fs s a tr s')
  case (Return x)
  then show ?case by (simp add: interleave_finished)
next
  case (Call c k)
  from Call.prems obtain f fs' where fs: "fs = f # fs'"
    by (cases fs) (auto split: if_splits prod.splits)
  show ?case
  proof (cases f)
    case True
    with Call.prems fs obtain tr1 where
      r: "run (k (Inl StorageUnavailable)) fs' s = (a, tr1, s')"
      and tr: "tr = (c, Inl StorageUnavailable) # tr1"
      by (auto simp: fails_def split: prod.splits)
    from Call.prems(2) fs tr have "length tr1 \<le> length fs'" by simp
    from Call.IH[OF _ r this] True fs tr show ?thesis by simp
  next
    case False
    obtain r s1 where ex: "exec c s = (r, s1)" by (cases "exec c s")
    with Call.prems fs False obtain tr1 where
      r: "run (k r) fs' s1 = (a, tr1, s')" and tr: "tr = (c, r) # tr1"
      by (auto simp: fails_def split: prod.splits)
    from Call.prems(2) fs tr have "length tr1 \<le> length fs'" by simp
    from Call.IH[OF _ r this] False fs tr ex show ?thesis by simp
  qed
qed

section \<open>Tracking a download of one application\<close>

lemma post_app_success:
  assumes "serve (POST_totaldownloads_app appId rq) fs s = (res, tr, s')" and "status res = 200"
  shows "served 3 fs"
  using assms
  by (auto simp: handler_defs served_Suc served_0 eval_nat_numeral
      split: if_splits prod.splits option.splits sum.splits reply.splits)

lemma post_app_served:
  assumes "served 3 fs"
  shows "serve (POST_totaldownloads_app appId rq) fs s =
    (json (Tracked True (count_of s appId + 1) ''Download tracked successfully''),
     [(InsertDownload (record_of (Some appId) rq), Inr Inserted),
      (FindOneAndUpdate appId True True,
         Inr (Modified (Some \<lparr>doc_id = appId, doc_count = count_of s appId + 1\<rparr>))),
      (FindOneAndUpdate ''counter'' True False,
         Inr (Modified (fst (findOneAndUpdate ''counter'' True False
                 (snd (findOneAndUpdate appId True True (totalDownload s)))))))],
     s\<lparr>downloadInfo := downloadInfo s @ [record_of (Some appId) rq],
       totalDownload := snd (findOneAndUpdate ''counter'' True False
                 (snd (findOneAndUpdate appId True True (totalDownload s))))\<rparr>)"
  using assms
  by (auto simp: handler_defs served_Suc served_0 eval_nat_numeral findOneAndUpdate_def count_of_def
      split: if_splits prod.splits option.splits sum.splits reply.splits dest: findOne_Some_id)

lemma post_app_counts:
  assumes "serve (POST_totaldownloads_app appId rq) fs s = (res, tr, s')" and "status res = 200"
  shows "count_of s' j = count_of s j + hit j appId + hit j ''counter''"
proof -
  from assms have sv: "served 3 fs" by (rule post_app_success)
  from assms(1)[unfolded post_app_served[OF sv]]
  have "s' = s\<lparr>downloadInfo := downloadInfo s @ [record_of (Some appId) rq],
       totalDownload := snd (findOneAndUpdate ''counter'' True False
                 (snd (findOneAndUpdate appId True True (totalDownload s))))\<rparr>"
    by simp
  then show ?thesis
    by (simp add: count_of_upsert_on count_of_upsert hit_def)
qed

text \<open>
  Claim C2. Every successful \<^verbatim>\<open>POST /totaldownloads/{appId}\<close> makes exactly three storage
  calls, in this order: it appends one download record to the log, it increments the
  counter named \<open>appId\<close>, it increments the global counter. The \<^verbatim>\<open>totalDownloadCount\<close>
  of the response is the count the second call returned, the value of the \<open>appId\<close>
  counter right after its increment, and the collections afterwards are the effect of
  the three calls.
\<close>

theorem track_app_steps_in_order:
  assumes "serve (POST_totaldownloads_app appId rq) fs s = (res, tr, s')"
    and "status res = 200"
  shows "(\<exists>v. tr =
            [(InsertDownload (record_of (Some appId) rq), Inr Inserted),
             (FindOneAndUpdate appId True True,
                Inr (Modified (Some \<lparr>doc_id = appId, doc_count = count_of s appId + 1\<rparr>))),
             (FindOneAndUpdate ''counter'' True False, Inr (Modified v))])
       \<and> s' = replay tr s
       \<and> downloadInfo s' = downloadInfo s @ [record_of (Some appId) rq]
       \<and> res = json (Tracked True (count_of s appId + 1) ''Download tracked successfully'')
       \<and> (\<forall>j. count_of s' j = count_of s j + hit j appId + hit j ''counter'')"
proof -
  from assms have sv: "served 3 fs" by (rule post_app_success)
  note eq = assms(1)[unfolded post_app_served[OF sv]]
  from eq have tr: "tr = [(InsertDownload (record_of (Some appId) rq), Inr Inserted),
      (FindOneAndUpdate appId True True,
         Inr (Modified (Some \<lparr>doc_id = appId, doc_count = count_of s appId + 1\<rparr>))),
      (FindOneAndUpdate ''counter'' True False,
         Inr (Modified (fst (findOneAndUpdate ''counter'' True False
                 (snd (findOneAndUpdate appId True True (totalDownload s)))))))]"
    and s': "s' = s\<lparr>downloadInfo := downloadInfo s @ [record_of (Some appId) rq],
       totalDownload := snd (findOneAndUpdate ''counter'' True False
                 (snd (findOneAndUpdate appId True True (totalDownload s))))\<rparr>"
    and res: "res = json (Tracked True (count_of s appId + 1) ''Download tracked successfully'')"
    by simp_all
  have rp: "s' = replay tr s"
    unfolding tr s' replay_def by (simp split: prod.splits)
  have dl: "downloadInfo s' = downloadInfo s @ [record_of (Some appId) rq]"
    unfolding s' by simp
  have cnt: "\<forall>j. count_of s' j = count_of s j + hit j appId + hit j ''counter''"
    using post_app_counts[OF assms] by simp
  from tr have "\<exists>v. tr =
            [(InsertDownload (record_of (Some appId) rq), Inr Inserted),
             (FindOneAndUpdate appId True True,
                Inr (Modified (Some \<lparr>doc_id = appId, doc_count = count_of s appId + 1\<rparr>))),
             (FindOneAndUpdate ''counter'' True False, Inr (Modified v))]"
    by blast
  with rp dl res cnt show ?thesis by blast
qed

theorem track_app_steps_in_order_witness:
  "status (fst (serve (POST_totaldownloads_app ''hub-mobile'' sample_request) [] sample_db)) = 200
   \<and> fst (serve (POST_totaldownloads_app ''hub-mobile'' sample_request) [] sample_db) =
       json (Tracked True 4 ''Download tracked successfully'')"
proof -
  let ?X = "serve (POST_totaldownloads_app ''hub-mobile'' sample_request) [] sample_db"
  have run: "?X = (fst ?X, fst (snd ?X), snd (snd ?X))" by simp
  have ok: "status (fst ?X) = 200"
    by (simp add: handler_defs fails_def findOneAndUpdate_def sample_db_def)
  from track_app_steps_in_order[OF run ok]
  have "fst ?X = json (Tracked True (count_of sample_db ''hub-mobile'' + 1)
                         ''Download tracked successfully'')"
    by blast
  moreover have "count_of sample_db ''hub-mobile'' + 1 = 4"
    by (simp add: count_of_def sample_db_def)
  ultimately have "fst ?X = json (Tracked True 4 ''Download tracked successfully'')" by simp
  with ok show ?thesis by (rule conjI)
qed

section \<open>Tracking a download without an application\<close>

text \<open>
  Claim C3 (evaluation of the code where it departs from the claim). On collections that
  hold no global counter, \<^verbatim>\<open>POST /totaldownloads\<close> inserts the download record, its
  \<^verbatim>\<open>findOneAndUpdate\<close> (no \<^verbatim>\<open>upsert\<close>) matches nothing and returns a \<^verbatim>\<open>null\<close> value,
  and the handler answers 500 without creating the counter. On the same collections
  \<^verbatim>\<open>POST /totaldownloads/hub-mobile\<close>, whose global increment passes \<^verbatim>\<open>upsert: true\<close>,
  succeeds and creates the global counter with count 1.
\<close>

theorem track_global_without_counter:
  "serve (POST_totaldownloads sample_request) [] empty_db =
     (status_json 500 (ErrorBody ''Failed to track download''),
      [(InsertDownload (record_of None sample_request), Inr Inserted),
       (FindOneAndUpdate ''counter'' False True, Inr (Modified None))],
      \<lparr>downloadInfo = [record_of None sample_request], totalDownload = []\<rparr>)
   \<and> fst (serve (POST_totaldownloads_app ''hub-mobile'' sample_request) [] empty_db) =
       json (Tracked True 1 ''Download tracked successfully'')
   \<and> totalDownload (snd (snd (serve (POST_totaldownloads_app ''hub-mobile'' sample_request) []
         empty_db))) =
       [\<lparr>doc_id = ''hub-mobile'', doc_count = 1\<rparr>, \<lparr>doc_id = ''counter'', doc_count = 1\<rparr>]"
  by (simp add: handler_defs fails_def findOneAndUpdate_def empty_db_def)

text \<open>
  Claim C9. A successful \<^verbatim>\<open>POST /totaldownloads\<close> changes no counter but the global one:
  the documents other than the global counter are the same documents, in the same order,
  before and after; no document is added to the collection; and the global count has
  grown by one.
\<close>

theorem track_global_touches_only_global:
  assumes "serve (POST_totaldownloads rq) fs s = (res, tr, s')" and "status res = 200"
  shows "filter (\<lambda>d. doc_id d \<noteq> ''counter'') (totalDownload s') =
           filter (\<lambda>d. doc_id d \<noteq> ''counter'') (totalDownload s)
       \<and> map doc_id (totalDownload s') = map doc_id (totalDownload s)
       \<and> (\<forall>i. i \<noteq> ''counter'' \<longrightarrow> findOne i (totalDownload s') = findOne i (totalDownload s))
       \<and> count_of s' ''counter'' = count_of s ''counter'' + 1"
  using assms
  by (auto simp: handler_defs findOneAndUpdate_def filter_inc_first map_id_inc_first
        findOne_inc_first_other findOne_inc_first_same count_of_def
      split: if_splits prod.splits option.splits sum.splits reply.splits)

theorem track_global_touches_only_global_witness:
  "status (fst (serve (POST_totaldownloads sample_request) [] sample_db)) = 200
   \<and> filter (\<lambda>d. doc_id d \<noteq> ''counter'')
        (totalDownload (snd (snd (serve (POST_totaldownloads sample_request) [] sample_db)))) =
       [\<lparr>doc_id = ''hub-mobile'', doc_count = 3\<rparr>]
   \<and> count_of (snd (snd (serve (POST_totaldownloads sample_request) [] sample_db))) ''counter'' = 6"
proof -
  let ?X = "serve (POST_totaldownloads sample_request) [] sample_db"
  have run: "?X = (fst ?X, fst (snd ?X), snd (snd ?X))" by simp
  have ok: "status (fst ?X) = 200"
    by (simp add: handler_defs fails_def findOneAndUpdate_def sample_db_def)
  note inst = track_global_touches_only_global[OF run ok]
  from inst have "filter (\<lambda>d. doc_id d \<noteq> ''counter'') (totalDownload (snd (snd ?X))) =
      filter (\<lambda>d. doc_id d \<noteq> ''counter'') (totalDownload sample_db)"
    by blast
  then have a: "filter (\<lambda>d. doc_id d \<noteq> ''counter'') (totalDownload (snd (snd ?X))) =
      [\<lparr>doc_id = ''hub-mobile'', doc_count = 3\<rparr>]"
    by (simp add: sample_db_def)
  from inst have "count_of (snd (snd ?X)) ''counter'' = count_of sample_db ''counter'' + 1"
    by blast
  then have b: "count_of (snd (snd ?X)) ''counter'' = 6"
    by (simp add: count_of_def sample_db_def)
  from ok a b show ?thesis by blast
qed

section \<open>Reading the counters\<close>

lemma map_of_assign:
  "map_of (assign m k v) j =
     (if k = ''__proto__'' then map_of m j else if j = k then Some v else map_of m j)"
  by (induction m k v rule: assign.induct) auto

lemma map_of_forEach:
  "map_of m j = None \<Longrightarrow> j \<notin> doc_id ` set ds \<Longrightarrow>
   map_of (fold (\<lambda>app dc. assign dc (doc_id app) (or_zero (doc_count app))) ds m) j = None"
  by (induction ds arbitrary: m) (auto simp: map_of_assign)

lemma get_all_excludes:
  assumes "serve GET_totaldownloads fs s = (res, tr, s')" "body res = DownloadCounts m"
  shows "map_of m ''counter'' = None"
    and "findOne i (totalDownload s) = None \<Longrightarrow> map_of m i = None"
  using assms
  by (auto simp: handler_defs findOne_None_iff intro!: map_of_forEach split: if_splits prod.splits)

lemma serve_keeps_absent:
  assumes "findOne i (totalDownload s) = None" "\<not> tracks i rq" "i \<noteq> ''counter''"
  shows "findOne i (totalDownload (snd (snd (serve rq fs s)))) = None"
  using assms
  by (cases rq)
     (auto simp: handler_defs findOneAndUpdate_def findOne_append findOne_inc_first_other
           split: if_splits prod.splits option.splits sum.splits reply.splits)

lemma serve_all_keeps_absent:
  assumes "findOne i (totalDownload s) = None" "\<forall>(rq, fs) \<in> set rs. \<not> tracks i rq"
    "i \<noteq> ''counter''"
  shows "findOne i (totalDownload (serve_all rs s)) = None"
  using assms
proof (induction rs arbitrary: s)
  case Nil
  then show ?case by simp
next
  case (Cons a rs)
  obtain rq fs where a: "a = (rq, fs)" by (cases a)
  from Cons.prems a have "findOne i (totalDownload (snd (snd (serve rq fs s)))) = None"
    by (intro serve_keeps_absent) auto
  with Cons a show ?case by simp
qed

text \<open>
  Claim C7. Whatever the counter collection holds, the mapping that
  \<^verbatim>\<open>GET /totaldownloads\<close> returns has no entry for the reserved id \<^verbatim>\<open>"counter"\<close>, and it
  has no entry for an application that has never been tracked: if \<open>i\<close> has no counter
  in the collections \<open>s0\<close> and no request of the history \<open>rs\<close> served since is a
  \<^verbatim>\<open>POST /totaldownloads/i\<close>, the mapping read after \<open>rs\<close> has no entry for \<open>i\<close>.
\<close>

theorem download_counts_exclude_global_and_untracked:
  assumes "findOne i (totalDownload s0) = None"
    and "\<forall>(rq, fs) \<in> set rs. \<not> tracks i rq"
    and "serve GET_totaldownloads fs (serve_all rs s0) = (res, tr, s')"
    and "body res = DownloadCounts m"
  shows "map_of m ''counter'' = None \<and> map_of m i = None"
proof (cases "i = ''counter''")
  case True
  with get_all_excludes(1)[OF assms(3,4)] show ?thesis by simp
next
  case False
  with assms(1,2) have "findOne i (totalDownload (serve_all rs s0)) = None"
    by (rule_tac serve_all_keeps_absent)
  with get_all_excludes[OF assms(3,4)] show ?thesis by simp
qed

theorem download_counts_exclude_global_and_untracked_witness:
  "body (fst (serve GET_totaldownloads []
      (serve_all [(POST_totaldownloads_app ''hub-library'' sample_request, []),
                  (POST_totaldownloads sample_request, [])] sample_db))) =
     DownloadCounts [(''hub-mobile'', 3), (''hub-library'', 1)]
   \<and> map_of [(''hub-mobile'', 3), (''hub-library'', 1 :: nat)] ''counter'' = None
   \<and> map_of [(''hub-mobile'', 3), (''hub-library'', 1 :: nat)] ''hub-web'' = None"
proof -
  let ?rs = "[(POST_totaldownloads_app ''hub-library'' sample_request, []),
              (POST_totaldownloads sample_request, [])]"
  let ?X = "serve GET_totaldownloads [] (serve_all ?rs sample_db)"
  have absent: "findOne ''hub-web'' (totalDownload sample_db) = None"
    by (simp add: sample_db_def)
  have never: "\<forall>(rq, fs) \<in> set ?rs. \<not> tracks ''hub-web'' rq" by simp
  have run: "?X = (fst ?X, fst (snd ?X), snd (snd ?X))" by simp
  have body: "body (fst ?X) = DownloadCounts [(''hub-mobile'', 3), (''hub-library'', 1)]"
    by (simp add: handler_defs fails_def findOneAndUpdate_def sample_db_def or_zero_def)
  from download_counts_exclude_global_and_untracked[OF absent never run body]
  have "map_of [(''hub-mobile'', 3), (''hub-library'', 1 :: nat)] ''counter'' = None
      \<and> map_of [(''hub-mobile'', 3), (''hub-library'', 1 :: nat)] ''hub-web'' = None" .
  with body show ?thesis by (rule conjI)
qed

text \<open>
  Claim C8. For an \<open>appId\<close> that has no counter, \<^verbatim>\<open>GET /totaldownloads/{appId}\<close> leaves
  the collections exactly as they were (it makes one \<^verbatim>\<open>findOne\<close> and nothing else) and,
  when the storage serves that call, answers 200 with \<^verbatim>\<open>{ totalDownloadCount: 0 }\<close>.
\<close>

theorem read_of_unknown_app_is_zero:
  assumes "findOne appId (totalDownload s) = None"
  shows "snd (snd (serve (GET_totaldownloads_app appId) fs s)) = s \<and>
         (\<not> fails fs \<longrightarrow>
            serve (GET_totaldownloads_app appId) fs s =
              (json (TotalDownloadCount 0), [(FindOne appId, Inr (Found None))], s))"
  using assms by (simp add: serve_def get_totaldownloads_app_def)

theorem read_of_unknown_app_is_zero_witness:
  "findOne ''unknown-app'' (totalDownload sample_db) = None
   \<and> \<not> fails []
   \<and> serve (GET_totaldownloads_app ''unknown-app'') [] sample_db =
       (json (TotalDownloadCount 0), [(FindOne ''unknown-app'', Inr (Found None))], sample_db)"
proof -
  have absent: "findOne ''unknown-app'' (totalDownload sample_db) = None"
    by (simp add: sample_db_def)
  have nf: "\<not> fails []" by (simp add: fails_def)
  from read_of_unknown_app_is_zero[OF absent, of "[]"] nf
  have "serve (GET_totaldownloads_app ''unknown-app'') [] sample_db =
       (json (TotalDownloadCount 0), [(FindOne ''unknown-app'', Inr (Found None))], sample_db)"
    by blast
  with absent nf show ?thesis by blast
qed

section \<open>Storage failures\<close>

lemma upsert_after_count:
  "count_of (s\<lparr>downloadInfo := dl,
      totalDownload := snd (findOneAndUpdate a True af (totalDownload s))\<rparr>) a =
     Suc (count_of s a)"
  using count_of_upsert_on[where s = "s\<lparr>downloadInfo := dl\<rparr>" and i = a and a = af
      and cs = "totalDownload s" and j = a]
  by (simp add: count_of_def)

lemma upsert_pair_count:
  "findOneAndUpdate a True af (totalDownload s) = (v, cs) \<Longrightarrow>
   count_of (s\<lparr>downloadInfo := dl, totalDownload := cs\<rparr>) a = Suc (count_of s a)"
  using upsert_after_count[where s = s and dl = dl and a = a and af = af] by simp

text \<open>
  Claim C6. Whatever the endpoint, if a storage call of its handler fails, the response
  is 500 with a body \<^verbatim>\<open>{ error: message }\<close>, and nothing is rolled back: the
  collections afterwards are the collections before with every call that was served
  before the failure applied. In particular a download record that was inserted is in
  the log, and a counter whose increment was served stands one higher than before.
\<close>

theorem storage_failure_answers_500:
  assumes "serve rq fs s = (res, tr, s')" and "(c, Inl e) \<in> set tr"
  shows "status res = 500 \<and> (\<exists>m. body res = ErrorBody m) \<and> s' = replay tr s
       \<and> (\<forall>r. (InsertDownload r, Inr Inserted) \<in> set tr \<longrightarrow>
              downloadInfo s' = downloadInfo s @ [r])
       \<and> (\<forall>a up af v. (FindOneAndUpdate a up af, Inr (Modified v)) \<in> set tr \<longrightarrow>
              count_of s' a = count_of s a + 1)"
  using assms
  by (cases rq)
     (auto simp: handler_defs replay_def upsert_pair_count
      split: if_splits prod.splits option.splits sum.splits reply.splits)

theorem storage_failure_answers_500_witness:
  "(FindOneAndUpdate ''counter'' True False, Inl StorageUnavailable) \<in>
     set (fst (snd (serve (POST_totaldownloads_app ''hub-mobile'' sample_request)
                      [False, False, True] sample_db)))
   \<and> status (fst (serve (POST_totaldownloads_app ''hub-mobile'' sample_request)
                      [False, False, True] sample_db)) = 500
   \<and> snd (snd (serve (POST_totaldownloads_app ''hub-mobile'' sample_request)
                      [False, False, True] sample_db)) =
       \<lparr>downloadInfo = [record_of (Some ''hub-mobile'') sample_request],
        totalDownload = [\<lparr>doc_id = ''counter'', doc_count = 5\<rparr>,
                         \<lparr>doc_id = ''hub-mobile'', doc_count = 4\<rparr>]\<rparr>"
proof -
  let ?X = "serve (POST_totaldownloads_app ''hub-mobile'' sample_request)
              [False, False, True] sample_db"
  have run: "?X = (fst ?X, fst (snd ?X), snd (snd ?X))" by simp
  have tr: "fst (snd ?X) =
      [(InsertDownload (record_of (Some ''hub-mobile'') sample_request), Inr Inserted),
       (FindOneAndUpdate ''hub-mobile'' True True,
          Inr (Modified (Some \<lparr>doc_id = ''hub-mobile'', doc_count = 4\<rparr>))),
       (FindOneAndUpdate ''counter'' True False, Inl StorageUnavailable)]"
    by (simp add: handler_defs fails_def findOneAndUpdate_def sample_db_def)
  then have failed: "(FindOneAndUpdate ''counter'' True False, Inl StorageUnavailable) \<in>
      set (fst (snd ?X))"
    by simp
  note inst = storage_failure_answers_500[OF run failed]
  from inst have st: "status (fst ?X) = 500" by blast
  from inst have "snd (snd ?X) = replay (fst (snd ?X)) sample_db" by blast
  then have "snd (snd ?X) =
       \<lparr>downloadInfo = [record_of (Some ''hub-mobile'') sample_request],
        totalDownload = [\<lparr>doc_id = ''counter'', doc_count = 5\<rparr>,
                         \<lparr>doc_id = ''hub-mobile'', doc_count = 4\<rparr>]\<rparr>"
    unfolding tr by (simp add: replay_def findOneAndUpdate_def sample_db_def)
  with failed st show ?thesis by blast
qed

section \<open>Startup\<close>

text \<open>
  Claim C5. When the storage serves its calls, \<^verbatim>\<open>initializeCounter\<close> on collections
  without a global counter appends the document \<^verbatim>\<open>{ _id: "counter", count: K }\<close>, where
  \<open>K\<close> is the number of download records in the log, and changes nothing else; on
  collections that hold a global counter it changes nothing at all.
\<close>

theorem initialization_seeds_from_log:
  assumes "run initializeCounter fs s = (r, tr, s')" and "served 3 fs"
  shows "(findOne ''counter'' (totalDownload s) = None \<longrightarrow>
            r = Inr () \<and>
            s' = s\<lparr>totalDownload := totalDownload s @
                    [\<lparr>doc_id = ''counter'', doc_count = length (downloadInfo s)\<rparr>]\<rparr> \<and>
            count_of s' ''counter'' = length (downloadInfo s))
       \<and> (findOne ''counter'' (totalDownload s) \<noteq> None \<longrightarrow>
            r = Inr () \<and> s' = s \<and> count_of s' ''counter'' = count_of s ''counter'')"
  using assms
  by (auto simp: initializeCounter_def served_Suc eval_nat_numeral count_of_def findOne_append
      split: if_splits prod.splits option.splits sum.splits reply.splits)

theorem initialization_seeds_from_log_witness:
  "findOne ''counter'' (totalDownload legacy_db) = None
   \<and> length (downloadInfo legacy_db) = 2
   \<and> count_of (snd (snd (run initializeCounter [] legacy_db))) ''counter'' = 2
   \<and> findOne ''counter'' (totalDownload sample_db) \<noteq> None
   \<and> snd (snd (run initializeCounter [] sample_db)) = sample_db"
proof -
  let ?X = "run initializeCounter [] legacy_db"
  let ?Y = "run initializeCounter [] sample_db"
  have sv: "served 3 []" by (simp add: served_def)
  have runX: "?X = (fst ?X, fst (snd ?X), snd (snd ?X))" by simp
  have runY: "?Y = (fst ?Y, fst (snd ?Y), snd (snd ?Y))" by simp
  have absent: "findOne ''counter'' (totalDownload legacy_db) = None"
    by (simp add: legacy_db_def)
  have present: "findOne ''counter'' (totalDownload sample_db) \<noteq> None"
    by (simp add: sample_db_def)
  have len: "length (downloadInfo legacy_db) = 2" by (simp add: legacy_db_def)
  from initialization_seeds_from_log[OF runX sv] absent
  have "count_of (snd (snd ?X)) ''counter'' = length (downloadInfo legacy_db)" by blast
  with len have a: "count_of (snd (snd ?X)) ''counter'' = 2" by simp
  from initialization_seeds_from_log[OF runY sv] present
  have b: "snd (snd ?Y) = sample_db" by blast
  from absent len a present b show ?thesis by blast
qed

section \<open>The reserved id used as an application id\<close>

text \<open>
  Claim C10, as the code has it. A successful \<^verbatim>\<open>POST /totaldownloads/counter\<close> increments
  the global counter twice, once as the application counter and once as the global
  counter, so its count grows by 2. The \<^verbatim>\<open>totalDownloadCount\<close> of the response is the
  count after the first of the two increments, one less than the count stored when the
  request is over. The mapping of \<^verbatim>\<open>GET /totaldownloads\<close>, read on any collections, has
  no entry for \<^verbatim>\<open>"counter"\<close>.
\<close>

theorem track_reserved_id_counts_twice:
  assumes "serve (POST_totaldownloads_app ''counter'' rq) fs s = (res, tr, s')"
    and "status res = 200"
    and "serve GET_totaldownloads fs' t = (res', tr', t')"
    and "body res' = DownloadCounts m"
  shows "count_of s' ''counter'' = count_of s ''counter'' + 2
       \<and> res = json (Tracked True (count_of s ''counter'' + 1) ''Download tracked successfully'')
       \<and> res = json (Tracked True (count_of s' ''counter'' - 1) ''Download tracked successfully'')
       \<and> map_of m ''counter'' = None"
proof -
  from assms(1,2) have sv: "served 3 fs" by (rule post_app_success)
  from assms(1)[unfolded post_app_served[OF sv]]
  have res: "res = json (Tracked True (count_of s ''counter'' + 1) ''Download tracked successfully'')"
    by simp
  from post_app_counts[OF assms(1,2), of "''counter''"]
  have cnt: "count_of s' ''counter'' = count_of s ''counter'' + 2" by (simp add: hit_def)
  from get_all_excludes(1)[OF assms(3,4)] have "map_of m ''counter'' = None" .
  with res cnt show ?thesis by simp
qed

theorem track_reserved_id_counts_twice_witness:
  "status (fst (serve (POST_totaldownloads_app ''counter'' sample_request) [] sample_db)) = 200
   \<and> body (fst (serve GET_totaldownloads [] sample_db)) = DownloadCounts [(''hub-mobile'', 3)]
   \<and> count_of (snd (snd (serve (POST_totaldownloads_app ''counter'' sample_request) []
        sample_db))) ''counter'' = 7
   \<and> fst (serve (POST_totaldownloads_app ''counter'' sample_request) [] sample_db) =
       json (Tracked True 6 ''Download tracked successfully'')
   \<and> map_of [(''hub-mobile'', 3 :: nat)] ''counter'' = None"
proof -
  let ?X = "serve (POST_totaldownloads_app ''counter'' sample_request) [] sample_db"
  let ?G = "serve GET_totaldownloads [] sample_db"
  have run: "?X = (fst ?X, fst (snd ?X), snd (snd ?X))" by simp
  have get: "?G = (fst ?G, fst (snd ?G), snd (snd ?G))" by simp
  have ok: "status (fst ?X) = 200"
    by (simp add: handler_defs fails_def findOneAndUpdate_def sample_db_def)
  have body: "body (fst ?G) = DownloadCounts [(''hub-mobile'', 3)]"
    by (simp add: handler_defs fails_def sample_db_def or_zero_def)
  have before: "count_of sample_db ''counter'' = 5" by (simp add: count_of_def sample_db_def)
  note inst = track_reserved_id_counts_twice[OF run ok get body]
  from inst before have a: "count_of (snd (snd ?X)) ''counter'' = 7" by simp
  from inst before have b: "fst ?X = json (Tracked True 6 ''Download tracked successfully'')"
    by simp
  from inst have c: "map_of [(''hub-mobile'', 3 :: nat)] ''counter'' = None" by blast
  from ok body a b c show ?thesis by blast
qed

text \<open>
  The claim as it was stated has the response carry the inflated count of the global
  counter. On collections whose global counter stands at 5, the request leaves it at 7
  and answers 6.
\<close>

theorem track_reserved_id_response_is_not_final_count:
  "status (fst (serve (POST_totaldownloads_app ''counter'' sample_request) [] sample_db)) = 200
   \<and> count_of sample_db ''counter'' = 5
   \<and> count_of (snd (snd (serve (POST_totaldownloads_app ''counter'' sample_request) []
        sample_db))) ''counter'' = 7
   \<and> body (fst (serve (POST_totaldownloads_app ''counter'' sample_request) [] sample_db)) =
       Tracked True 6 ''Download tracked successfully''
   \<and> body (fst (serve (POST_totaldownloads_app ''counter'' sample_request) [] sample_db)) \<noteq>
       Tracked True
         (count_of (snd (snd (serve (POST_totaldownloads_app ''counter'' sample_request) []
            sample_db))) ''counter'')
         ''Download tracked successfully''"
  by (simp add: handler_defs fails_def findOneAndUpdate_def sample_db_def count_of_def)

section \<open>Concurrent tracking requests\<close>

lemma post_totaldownloads_app_unfold:
  "post_totaldownloads_app appId rq =
     Call (InsertDownload (record_of (Some appId) rq)) (\<lambda>r1.
       case r1 of Inl e \<Rightarrow> Return track_failed | Inr _ \<Rightarrow> post_app_after_insert appId)"
  unfolding post_totaldownloads_app_def post_app_after_insert_def post_app_after_increment_def
  by (rule refl)

lemma post_totaldownloads_unfold:
  "post_totaldownloads rq =
     Call (InsertDownload (record_of None rq)) (\<lambda>r1.
       case r1 of Inl e \<Rightarrow> Return track_failed | Inr _ \<Rightarrow> post_after_insert)"
  unfolding post_totaldownloads_def post_after_insert_def by (rule refl)

lemma respond_tracked_Return: "\<exists>res. respond_tracked r = Return res"
  by (auto simp: respond_tracked_def split: reply.splits option.splits)

lemma exec_increment_present:
  assumes "findOne ''counter'' (totalDownload s) \<noteq> None"
    and "exec (FindOneAndUpdate ''counter'' False True) s = (r, s')"
  shows "count_of s' i = count_of s i + hit i ''counter''"
  using assms
  by (auto simp: hit_def count_of_def findOneAndUpdate_def findOne_inc_first_same
        findOne_inc_first_other split: prod.splits option.splits)

lemma exec_increment_other:
  assumes "i \<noteq> a" and "exec (FindOneAndUpdate a up af) s = (r, s')"
  shows "count_of s' i = count_of s i"
  using assms
  by (auto simp: count_of_def findOneAndUpdate_def findOne_inc_first_other findOne_append
        split: prod.splits option.splits if_splits)

lemma exec_keeps_present:
  assumes "findOne j (totalDownload s) \<noteq> None" and "exec c s = (r, s')"
  shows "findOne j (totalDownload s') \<noteq> None"
proof (cases c)
  case (InsertCounter d)
  with assms show ?thesis by (auto simp: findOne_append split: option.splits)
next
  case (FindOneAndUpdate a up af)
  with assms show ?thesis
    by (cases "j = a")
       (auto simp: findOneAndUpdate_def findOne_append findOne_inc_first_same
          findOne_inc_first_other split: option.splits if_splits)
qed (use assms in auto)

lemma step_keeps_present:
  assumes "findOne j (totalDownload s) \<noteq> None" and "step False p s = (p', ev, s')"
  shows "findOne j (totalDownload s') \<noteq> None"
proof (cases p)
  case (Return a)
  with assms show ?thesis by simp
next
  case (Call c k)
  obtain r s1 where ex: "exec c s = (r, s1)" by (cases "exec c s")
  with Call assms(2) have "s' = s1" by simp
  with exec_keeps_present[OF assms(1) ex] show ?thesis by simp
qed

lemma step_owes:
  assumes "owes i p n" and "step False p s = (p', ev, s')"
    and "i \<noteq> ''counter'' \<or> findOne ''counter'' (totalDownload s) \<noteq> None \<or>
         \<not> wants_counter p"
  shows "\<exists>n'. owes i p' n' \<and> count_of s' i + n' = count_of s i + n"
  using assms(1)
proof (cases rule: owes.cases)
  case (owes_app a rq)
  with assms(2) have "p' = post_app_after_insert a" "count_of s' i = count_of s i"
    by (auto simp: post_totaldownloads_app_unfold)
  with owes_app show ?thesis by (auto intro: owes.owes_app_inserted)
next
  case (owes_app_inserted a)
  with assms(2) obtain r where
    "p' = post_app_after_increment r" "exec (FindOneAndUpdate a True True) s = (Inr r, s')"
    by (auto simp: post_app_after_insert_def split: prod.splits)
  with owes_app_inserted exec_upsert_count[of a True s "Inr r" s' i] show ?thesis
    by (auto intro!: exI[of _ "hit i ''counter''"] owes.owes_app_incremented)
next
  case (owes_app_incremented r)
  obtain res where res: "respond_tracked r = Return res" using respond_tracked_Return by blast
  from owes_app_incremented assms(2) obtain r' where
    "p' = respond_tracked r" "exec (FindOneAndUpdate ''counter'' True False) s = (Inr r', s')"
    by (auto simp: post_app_after_increment_def split: prod.splits)
  with owes_app_incremented res exec_upsert_count[of "''counter''" False s "Inr r'" s' i]
  show ?thesis
    by (auto intro!: exI[of _ 0] owes.owes_over)
next
  case (owes_global rq)
  with assms(2) have "p' = post_after_insert" "count_of s' i = count_of s i"
    by (auto simp: post_totaldownloads_unfold)
  with owes_global show ?thesis by (auto intro: owes.owes_global_inserted)
next
  case owes_global_inserted
  with assms(3) have safe:
    "i \<noteq> ''counter'' \<or> findOne ''counter'' (totalDownload s) \<noteq> None"
    by (auto simp: wants_counter_def)
  from owes_global_inserted assms(2) obtain r where
    p': "p' = respond_tracked r"
    and ex: "exec (FindOneAndUpdate ''counter'' False True) s = (Inr r, s')"
    by (auto simp: post_after_insert_def split: prod.splits)
  obtain res where res: "respond_tracked r = Return res" using respond_tracked_Return by blast
  have "count_of s' i = count_of s i + hit i ''counter''"
  proof (cases "i = ''counter''")
    case True
    with safe have "findOne ''counter'' (totalDownload s) \<noteq> None" by simp
    from exec_increment_present[OF this ex, of i] show ?thesis .
  next
    case False
    from exec_increment_other[OF False ex] False show ?thesis by (simp add: hit_def)
  qed
  with owes_global_inserted p' res show ?thesis
    by (auto intro!: exI[of _ 0] owes.owes_over)
next
  case owes_read_all
  with assms(2) obtain res where "p' = Return res" "s' = s"
    by (auto simp: get_totaldownloads_def split: prod.splits)
  with owes_read_all show ?thesis by (auto intro: owes.owes_over)
next
  case (owes_read_one a)
  with assms(2) obtain res where "p' = Return res" "s' = s"
    by (auto simp: get_totaldownloads_app_def split: prod.splits)
  with owes_read_one show ?thesis by (auto intro: owes.owes_over)
next
  case (owes_over res)
  with assms(2) have "p' = p" "s' = s" by simp_all
  with assms(1) owes_over show ?thesis by auto
qed

lemma step_wants_counter:
  assumes "owes i p n" and "step False p s = (p', ev, s')" and "\<not> wants_counter p"
  shows "\<not> wants_counter p'"
  using assms(1)
proof (cases rule: owes.cases)
  case (owes_app a rq)
  with assms(2) have "p' = post_app_after_insert a"
    by (auto simp: post_totaldownloads_app_unfold)
  then show ?thesis
    by (simp add: wants_counter_def post_app_after_insert_def post_totaldownloads_unfold
          post_after_insert_def)
next
  case (owes_app_inserted a)
  with assms(2) obtain r where "p' = post_app_after_increment r"
    by (auto simp: post_app_after_insert_def split: prod.splits)
  then show ?thesis
    by (simp add: wants_counter_def post_app_after_increment_def post_totaldownloads_unfold
          post_after_insert_def)
next
  case (owes_app_incremented r)
  obtain res where res: "respond_tracked r = Return res" using respond_tracked_Return by blast
  from owes_app_incremented assms(2) have "p' = respond_tracked r"
    by (auto simp: post_app_after_increment_def split: prod.splits)
  with res show ?thesis
    by (simp add: wants_counter_def post_totaldownloads_unfold post_after_insert_def)
next
  case (owes_global rq)
  with assms(3) show ?thesis by (auto simp: wants_counter_def)
next
  case owes_global_inserted
  with assms(3) show ?thesis by (auto simp: wants_counter_def)
next
  case owes_read_all
  with assms(2) obtain res where "p' = Return res"
    by (auto simp: get_totaldownloads_def split: prod.splits)
  then show ?thesis
    by (simp add: wants_counter_def post_totaldownloads_unfold post_after_insert_def)
next
  case (owes_read_one a)
  with assms(2) obtain res where "p' = Return res"
    by (auto simp: get_totaldownloads_app_def split: prod.splits)
  then show ?thesis
    by (simp add: wants_counter_def post_totaldownloads_unfold post_after_insert_def)
next
  case (owes_over res)
  with assms(2) have "p' = p" by simp
  with assms(3) show ?thesis by simp
qed

lemma owes_returned:
  assumes "owes i p n" and "returned p \<noteq> None"
  shows "n = 0"
  using assms
  by (cases rule: owes.cases)
     (simp_all add: post_totaldownloads_app_unfold post_app_after_insert_def
        post_app_after_increment_def post_totaldownloads_unfold post_after_insert_def)

lemma sum_list_nat_update:
  "n < length (ns :: nat list) \<Longrightarrow> sum_list (ns[n := x]) + ns ! n = sum_list ns + x"
  by (induction ns arbitrary: n) (auto split: nat.splits)

lemma list_all_update: "list_all P xs \<Longrightarrow> P y \<Longrightarrow> list_all P (xs[n := y])"
  by (induction xs arbitrary: n) (auto split: nat.splits)

lemma interleave_owes:
  assumes "list_all2 (owes i) ps ns"
    and "interleave sch ps s = (ps', tr, s')"
    and "\<forall>(n, f) \<in> set sch. \<not> f"
    and "i \<noteq> ''counter'' \<or> findOne ''counter'' (totalDownload s) \<noteq> None \<or>
         list_all (\<lambda>p. \<not> wants_counter p) ps"
  shows "\<exists>ns'. list_all2 (owes i) ps' ns' \<and>
           count_of s' i + sum_list ns' = count_of s i + sum_list ns"
  using assms
proof (induction sch arbitrary: ps ns s tr)
  case Nil
  then show ?case by auto
next
  case (Cons a sch)
  obtain n f where a: "a = (n, f)" by (cases a)
  with Cons.prems(3) have nf: "\<not> f" and rest: "\<forall>(n, f) \<in> set sch. \<not> f" by auto
  show ?case
  proof (cases "n < length ps")
    case False
    with Cons.prems(2) a have "interleave sch ps s = (ps', tr, s')" by simp
    from Cons.IH[OF Cons.prems(1) this rest Cons.prems(4)] show ?thesis .
  next
    case True
    obtain p1 ev s1 where st: "step False (ps ! n) s = (p1, ev, s1)"
      by (cases "step False (ps ! n) s")
    from True Cons.prems(1) have len: "n < length ns" and ow: "owes i (ps ! n) (ns ! n)"
      by (auto simp: list_all2_conv_all_nth)
    from Cons.prems(4) True have safe:
      "i \<noteq> ''counter'' \<or> findOne ''counter'' (totalDownload s) \<noteq> None \<or>
       \<not> wants_counter (ps ! n)"
      by (auto simp: list_all_length)
    from step_owes[OF ow st safe] obtain n1 where
      n1: "owes i p1 n1" "count_of s1 i + n1 = count_of s i + ns ! n" by blast
    from Cons.prems(1) n1(1) have la: "list_all2 (owes i) (ps[n := p1]) (ns[n := n1])"
      by (simp add: list_all2_update_cong)
    have safe1: "i \<noteq> ''counter'' \<or> findOne ''counter'' (totalDownload s1) \<noteq> None \<or>
                 list_all (\<lambda>p. \<not> wants_counter p) (ps[n := p1])"
    proof (cases "i \<noteq> ''counter'' \<or> findOne ''counter'' (totalDownload s) \<noteq> None")
      case True
      then show ?thesis
      proof
        assume "i \<noteq> ''counter''"
        then show ?thesis by simp
      next
        assume "findOne ''counter'' (totalDownload s) \<noteq> None"
        from step_keeps_present[OF this st] show ?thesis by simp
      qed
    next
      case False
      with Cons.prems(4) have all: "list_all (\<lambda>p. \<not> wants_counter p) ps" by simp
      with \<open>n < length ps\<close> have "\<not> wants_counter (ps ! n)" by (simp add: list_all_length)
      from step_wants_counter[OF ow st this] have "\<not> wants_counter p1" .
      with all have "list_all (\<lambda>p. \<not> wants_counter p) (ps[n := p1])"
        by (rule_tac list_all_update)
      then show ?thesis by simp
    qed
    from Cons.prems(2) a True nf st obtain tr1 where
      il: "interleave sch (ps[n := p1]) s1 = (ps', tr1, s')"
      by (auto split: prod.splits)
    from Cons.IH[OF la il rest safe1] obtain ns' where
      ns': "list_all2 (owes i) ps' ns'"
           "count_of s' i + sum_list ns' = count_of s1 i + sum_list (ns[n := n1])" by blast
    from sum_list_nat_update[OF len, of n1] n1(2) ns'(2)
    have "count_of s' i + sum_list ns' = count_of s i + sum_list ns" by linarith
    with ns'(1) show ?thesis by blast
  qed
qed

lemma owes_handler: "owes i (handler rq) (sum_list (map (hit i) (increment_calls rq)))"
  by (cases rq) (auto simp: get_root_def intro: owes.intros)

lemma owes_initial:
  "list_all2 (owes i) (map handler rqs)
     (map (\<lambda>rq. sum_list (map (hit i) (increment_calls rq))) rqs)"
  by (induction rqs) (auto intro: owes_handler)

lemma increments_sum:
  "sum_list (map (\<lambda>rq. sum_list (map (hit i) (increment_calls rq))) rqs) = increments i rqs"
proof -
  have "sum_list (map (hit i) xs) = length (filter (\<lambda>a. a = i) xs)" for xs
    by (induction xs) (auto simp: hit_def)
  then show ?thesis
    by (induction rqs) (auto simp: increments_def)
qed

lemma increments_app:
  "i \<noteq> ''counter'' \<Longrightarrow> increments i rqs = length (filter (tracks i) rqs)"
proof (induction rqs)
  case Nil
  then show ?case by (simp add: increments_def)
next
  case (Cons rq rqs)
  then show ?case by (cases rq) (auto simp: increments_def)
qed

lemma increments_global:
  "\<not> list_ex (tracks ''counter'') rqs \<Longrightarrow>
   increments ''counter'' rqs = length (filter tracking rqs)"
proof (induction rqs)
  case Nil
  then show ?case by (simp add: increments_def)
next
  case (Cons rq rqs)
  then show ?case by (cases rq) (auto simp: increments_def)
qed

lemma scoped_handler: "\<not> unscoped rq \<Longrightarrow> \<not> wants_counter (handler rq)"
  by (cases rq)
     (auto simp: wants_counter_def post_totaldownloads_unfold post_after_insert_def
        post_totaldownloads_app_unfold get_totaldownloads_def get_totaldownloads_app_def
        get_root_def record_of_def)

lemma all_returned_zero:
  assumes "list_all2 (owes i) ps ns" and "list_all (\<lambda>p. returned p \<noteq> None) ps"
  shows "sum_list ns = 0"
  using assms
  by (induction ps ns rule: list_all2_induct) (auto dest: owes_returned)

text \<open>
  Where no increment is lost. Let any requests run concurrently, their storage calls
  interleaved in any order, every call served, until all have answered. Every
  application counter \<open>i\<close> ends at its count before the requests plus the number of
  increment calls the requests made on \<open>i\<close>, which is the number of
  \<^verbatim>\<open>POST /totaldownloads/i\<close> requests. The global counter does so as well if it exists
  when the requests start, or if every tracking request among them names an
  application: the increment of \<^verbatim>\<open>POST /totaldownloads\<close> passes no \<^verbatim>\<open>upsert\<close>.
\<close>

lemma increments_kept:
  assumes "interleave sch (map handler rqs) s = (ps', tr, s')"
    and "\<forall>(n, f) \<in> set sch. \<not> f"
    and "list_all (\<lambda>p. returned p \<noteq> None) ps'"
    and "i \<noteq> ''counter'' \<or> findOne ''counter'' (totalDownload s) \<noteq> None \<or>
         (\<forall>rq \<in> set rqs. \<not> unscoped rq)"
  shows "count_of s' i = count_of s i + increments i rqs"
proof -
  from assms(4) have safe:
    "i \<noteq> ''counter'' \<or> findOne ''counter'' (totalDownload s) \<noteq> None \<or>
     list_all (\<lambda>p. \<not> wants_counter p) (map handler rqs)"
    by (auto simp: list_all_iff scoped_handler)
  from interleave_owes[OF owes_initial assms(1,2) safe] obtain ns' where
    ow: "list_all2 (owes i) ps' ns'" and
    eq: "count_of s' i + sum_list ns' =
         count_of s i + sum_list (map (\<lambda>rq. sum_list (map (hit i) (increment_calls rq))) rqs)"
    by blast
  from all_returned_zero[OF ow assms(3)] have "sum_list ns' = 0" .
  with eq show ?thesis by (simp add: increments_sum)
qed

lemma app_increments_kept:
  assumes "interleave sch (map handler rqs) s = (ps', tr, s')"
    and "\<forall>(n, f) \<in> set sch. \<not> f"
    and "list_all (\<lambda>p. returned p \<noteq> None) ps'"
    and "i \<noteq> ''counter''"
  shows "count_of s' i = count_of s i + length (filter (tracks i) rqs)"
  using increments_kept[OF assms(1,2,3), of i] assms(4) by (simp add: increments_app)

lemma global_increments_kept:
  assumes "interleave sch (map handler rqs) s = (ps', tr, s')"
    and "\<forall>(n, f) \<in> set sch. \<not> f"
    and "list_all (\<lambda>p. returned p \<noteq> None) ps'"
    and "findOne ''counter'' (totalDownload s) \<noteq> None \<or> (\<forall>rq \<in> set rqs. \<not> unscoped rq)"
    and "\<not> list_ex (tracks ''counter'') rqs"
  shows "count_of s' ''counter'' = count_of s ''counter'' + length (filter tracking rqs)"
  using increments_kept[OF assms(1,2,3), of "''counter''"] assms(4,5)
  by (simp add: increments_global)


section \<open>Concurrent initialisation attempts\<close>

lemma initializeCounter_unfold:
  "initializeCounter =
     Call (FindOne ''counter'') (\<lambda>r1.
       case r1 of
         Inl e \<Rightarrow> Return (Inl e)
       | Inr (Found (Some counterDoc)) \<Rightarrow> Return (Inr ())
       | Inr (Found None) \<Rightarrow> init_after_find
       | Inr _ \<Rightarrow> Return (Inl TypeError))"
  unfolding initializeCounter_def init_after_find_def init_after_count_def by (rule refl)

lemma findOne_seeded:
  "findOne ''counter'' (totalDownload s0) = None \<Longrightarrow>
   findOne ''counter'' (seeded s0) =
     Some \<lparr>doc_id = ''counter'', doc_count = length (downloadInfo s0)\<rparr>"
  by (simp add: seeded_def findOne_append)

lemma seeded_neq: "seeded s0 \<noteq> totalDownload s0"
  by (simp add: seeded_def)

lemma attempt_ok_mono:
  "attempt_ok s0 s p \<Longrightarrow> totalDownload s = seeded s0 \<longrightarrow> totalDownload s1 = seeded s0 \<Longrightarrow>
   attempt_ok s0 s1 p"
  by (auto simp: attempt_ok_def)

lemma step_attempt:
  assumes absent: "findOne ''counter'' (totalDownload s0) = None"
    and dl: "downloadInfo s = downloadInfo s0"
    and td: "totalDownload s = totalDownload s0 \<or> totalDownload s = seeded s0"
    and ok: "attempt_ok s0 s p"
    and st: "step False p s = (p', ev, s')"
  shows "downloadInfo s' = downloadInfo s0
       \<and> (totalDownload s' = totalDownload s \<or>
            totalDownload s = totalDownload s0 \<and> totalDownload s' = seeded s0)
       \<and> attempt_ok s0 s' p'
       \<and> length (filter is_creation (map (Pair n) ev)) =
            (if totalDownload s' = totalDownload s then 0 else 1)"
proof -
  consider (a) "p = initializeCounter" | (b) "p = init_after_find"
    | (c) "p = init_after_count (length (downloadInfo s0))"
    | (d) "(p = Return (Inr ()) \<or> p = Return (Inl DuplicateKey))" "totalDownload s = seeded s0"
    using ok by (auto simp: attempt_ok_def)
  then show ?thesis
  proof cases
    case a
    from td show ?thesis
    proof
      assume "totalDownload s = totalDownload s0"
      with a st absent dl show ?thesis
        by (auto simp: initializeCounter_unfold attempt_ok_def)
    next
      assume "totalDownload s = seeded s0"
      with a st findOne_seeded[OF absent] dl show ?thesis
        by (auto simp: initializeCounter_unfold attempt_ok_def)
    qed
  next
    case b
    with st dl show ?thesis
      by (auto simp: init_after_find_def attempt_ok_def)
  next
    case c
    from td show ?thesis
    proof
      assume "totalDownload s = totalDownload s0"
      with c st absent dl seeded_neq[of s0] show ?thesis
        by (auto simp: init_after_count_def attempt_ok_def seeded_def)
    next
      assume "totalDownload s = seeded s0"
      with c st findOne_seeded[OF absent] dl show ?thesis
        by (auto simp: init_after_count_def attempt_ok_def)
    qed
  next
    case d
    with st dl show ?thesis by (auto simp: attempt_ok_def)
  qed
qed

lemma interleave_race:
  assumes absent: "findOne ''counter'' (totalDownload s0) = None"
    and inv: "race_inv s0 ps s"
    and served: "\<forall>(n, f) \<in> set sch. \<not> f"
    and il: "interleave sch ps s = (ps', tr, s')"
  shows "race_inv s0 ps' s'
       \<and> length ps' = length ps
       \<and> (totalDownload s = seeded s0 \<longrightarrow> totalDownload s' = seeded s0)
       \<and> length (filter is_creation tr) = (if totalDownload s' = totalDownload s then 0 else 1)"
  using inv served il
proof (induction sch arbitrary: ps s tr)
  case Nil
  then show ?case by auto
next
  case (Cons a sch)
  obtain n f where a: "a = (n, f)" by (cases a)
  with Cons.prems(2) have nf: "\<not> f" and rest: "\<forall>(n, f) \<in> set sch. \<not> f" by auto
  show ?case
  proof (cases "n < length ps")
    case False
    with Cons.prems(3) a have "interleave sch ps s = (ps', tr, s')" by simp
    from Cons.IH[OF Cons.prems(1) rest this] show ?thesis .
  next
    case True
    obtain p1 ev s1 where st: "step False (ps ! n) s = (p1, ev, s1)"
      by (cases "step False (ps ! n) s")
    from Cons.prems(1) have dl: "downloadInfo s = downloadInfo s0"
      and td: "totalDownload s = totalDownload s0 \<or> totalDownload s = seeded s0"
      and all: "list_all (attempt_ok s0 s) ps"
      by (simp_all add: race_inv_def)
    from all True have ok: "attempt_ok s0 s (ps ! n)" by (simp add: list_all_length)
    note sa = step_attempt[OF absent dl td ok st, of n]
    from sa have dl1: "downloadInfo s1 = downloadInfo s0"
      and td1: "totalDownload s1 = totalDownload s \<or>
                totalDownload s = totalDownload s0 \<and> totalDownload s1 = seeded s0"
      and ok1: "attempt_ok s0 s1 p1"
      and cr1: "length (filter is_creation (map (Pair n) ev)) =
                  (if totalDownload s1 = totalDownload s then 0 else 1)"
      by simp_all
    from td1 have mono: "totalDownload s = seeded s0 \<longrightarrow> totalDownload s1 = seeded s0"
      using seeded_neq[of s0] by auto
    from all mono have "list_all (attempt_ok s0 s1) ps"
      by (auto simp: list_all_iff intro: attempt_ok_mono)
    from this ok1 have all1: "list_all (attempt_ok s0 s1) (ps[n := p1])"
      by (rule list_all_update)
    from td td1 have "totalDownload s1 = totalDownload s0 \<or> totalDownload s1 = seeded s0"
      by auto
    with dl1 all1 have inv1: "race_inv s0 (ps[n := p1]) s1" by (simp add: race_inv_def)
    from Cons.prems(3) a True nf st obtain tr1 where
      il1: "interleave sch (ps[n := p1]) s1 = (ps', tr1, s')" and tr: "tr = map (Pair n) ev @ tr1"
      by (auto split: prod.splits)
    from Cons.IH[OF inv1 rest il1] have
      inv': "race_inv s0 ps' s'" and len: "length ps' = length ps"
      and mono1: "totalDownload s1 = seeded s0 \<longrightarrow> totalDownload s' = seeded s0"
      and cr: "length (filter is_creation tr1) =
                 (if totalDownload s' = totalDownload s1 then 0 else 1)"
      by simp_all
    from inv' have td': "totalDownload s' = totalDownload s0 \<or> totalDownload s' = seeded s0"
      by (simp add: race_inv_def)
    have "length (filter is_creation tr) = (if totalDownload s' = totalDownload s then 0 else 1)"
      unfolding tr using cr cr1 td td1 td' mono mono1 seeded_neq[of s0]
      by (auto split: if_splits)
    with inv' len mono mono1 show ?thesis by simp
  qed
qed

lemma attempt_returned:
  assumes "attempt_ok s0 s p" and "returned p \<noteq> None"
  shows "(returned p = Some (Inr ()) \<or> returned p = Some (Inl DuplicateKey))
       \<and> totalDownload s = seeded s0"
  using assms
  by (auto simp: attempt_ok_def initializeCounter_unfold init_after_find_def
        init_after_count_def)

text \<open>
  Claim C4. Let any number of \<^verbatim>\<open>initializeCounter\<close> attempts, at least one, race on
  collections without a global counter whose log holds \<open>K\<close> records, their storage calls
  interleaved in any order, every call served, until all are over. Then the collections
  are the collections before with the one document \<^verbatim>\<open>{ _id: "counter", count: K }\<close>
  appended, whatever the interleaving; exactly one \<^verbatim>\<open>insertOne\<close> of the run created a
  counter; and every attempt ended either normally or with the duplicate-key error by
  which the storage refuses a second creation. The counter is neither seeded twice nor
  overwritten.
\<close>

theorem initialization_race_creates_once:
  assumes "findOne ''counter'' (totalDownload s) = None"
    and "interleave sch (replicate m initializeCounter) s = (ps', tr, s')"
    and "\<forall>(n, f) \<in> set sch. \<not> f"
    and "list_all (\<lambda>p. returned p \<noteq> None) ps'"
    and "0 < m"
  shows "s' = s\<lparr>totalDownload := totalDownload s @
                 [\<lparr>doc_id = ''counter'', doc_count = length (downloadInfo s)\<rparr>]\<rparr>
       \<and> length (filter is_creation tr) = 1
       \<and> list_all (\<lambda>p. returned p = Some (Inr ()) \<or> returned p = Some (Inl DuplicateKey)) ps'"
proof -
  have inv0: "race_inv s (replicate m initializeCounter) s"
    by (simp add: race_inv_def attempt_ok_def list_all_iff)
  from interleave_race[OF assms(1) inv0 assms(3) assms(2)] have
    inv': "race_inv s ps' s'" and len: "length ps' = m"
    and cr: "length (filter is_creation tr) = (if totalDownload s' = totalDownload s then 0 else 1)"
    by simp_all
  from inv' have all: "list_all (attempt_ok s s') ps'" and dl: "downloadInfo s' = downloadInfo s"
    by (simp_all add: race_inv_def)
  have each:
    "\<forall>p \<in> set ps'. (returned p = Some (Inr ()) \<or> returned p = Some (Inl DuplicateKey))
        \<and> totalDownload s' = seeded s"
  proof
    fix p assume "p \<in> set ps'"
    with all assms(4) have "attempt_ok s s' p" "returned p \<noteq> None"
      by (simp_all add: list_all_iff)
    then show "(returned p = Some (Inr ()) \<or> returned p = Some (Inl DuplicateKey))
        \<and> totalDownload s' = seeded s" by (rule attempt_returned)
  qed
  from len assms(5) obtain p where "p \<in> set ps'" by (cases ps') auto
  with each have td: "totalDownload s' = seeded s" by blast
  with dl have "s' = s\<lparr>totalDownload := seeded s\<rparr>" by simp
  moreover from td cr seeded_neq[of s] have "length (filter is_creation tr) = 1" by simp
  moreover from each have
    "list_all (\<lambda>p. returned p = Some (Inr ()) \<or> returned p = Some (Inl DuplicateKey)) ps'"
    by (simp add: list_all_iff)
  ultimately show ?thesis by (simp add: seeded_def)
qed

theorem initialization_race_creates_once_witness:
  "findOne ''counter'' (totalDownload legacy_db) = None
   \<and> map returned (fst (interleave init_schedule (replicate 2 initializeCounter) legacy_db)) =
       [Some (Inr ()), Some (Inl DuplicateKey)]
   \<and> totalDownload (snd (snd (interleave init_schedule (replicate 2 initializeCounter)
        legacy_db))) =
       [\<lparr>doc_id = ''counter'', doc_count = 2\<rparr>]"
proof -
  let ?X = "interleave init_schedule (replicate 2 initializeCounter) legacy_db"
  have run: "?X = (fst ?X, fst (snd ?X), snd (snd ?X))" by simp
  have absent: "findOne ''counter'' (totalDownload legacy_db) = None"
    by (simp add: legacy_db_def)
  have served: "\<forall>(n, f) \<in> set init_schedule. \<not> f" by (simp add: init_schedule_def)
  have ends: "map returned (fst ?X) = [Some (Inr ()), Some (Inl DuplicateKey)]"
    by (simp add: init_schedule_def legacy_db_def initializeCounter_def eval_nat_numeral)
  have fin: "list_all (\<lambda>p. returned p \<noteq> None) (fst ?X)"
    by (simp add: init_schedule_def legacy_db_def initializeCounter_def eval_nat_numeral)
  have "(0 :: nat) < 2" by simp
  from initialization_race_creates_once[OF absent run served fin this]
  have "snd (snd ?X) = legacy_db\<lparr>totalDownload := totalDownload legacy_db @
          [\<lparr>doc_id = ''counter'', doc_count = length (downloadInfo legacy_db)\<rparr>]\<rparr>"
    by blast
  then have "totalDownload (snd (snd ?X)) = [\<lparr>doc_id = ''counter'', doc_count = 2\<rparr>]"
    by (simp add: legacy_db_def)
  with absent ends show ?thesis by blast
qed

end
